theory Spec2Isabelle
  imports Main "HOL-Library.Word"
begin

section \<open>Data model of \<open>SW_Timer_executable.c\<close>\<close>

text \<open>
  Ten software timers are multiplexed onto one free running 32-bit hardware counter.
  \<open>uint32\<close> is \<open>unsigned int\<close> and \<open>uint8\<close> is \<open>unsigned char\<close>: all arithmetic on
  them wraps around, which is what \<open>+\<close> and \<open>-\<close> on words do, and \<open><\<close> on words is the
  unsigned comparison.
\<close>

type_synonym uint32 = "32 word"
type_synonym uint8 = "8 word"

definition TMR_NUM :: nat where
  "TMR_NUM = 10"

text \<open>The struct \<open>timer_data_t\<close>; an entry with \<open>wait_us = 0\<close> is inactive.\<close>

record timer_data_t =
  wait_us :: uint32
  remain :: uint32
  times_fired :: uint32

text \<open>
  The global variables of the program that the timer core touches. The three registers
  are the \<open>volatile\<close> globals; \<open>tmr_val_reg\<close> is only read by the core and is
  incremented by the hardware thread. The array \<open>timer_data[TMR_NUM]\<close> is a list whose
  length is \<open>TMR_NUM\<close> in every state of the program (\<open>table_ok\<close>).
\<close>

record sw_timer =
  tmr_val_reg :: uint32
  tmr_cmp_reg :: uint32
  tmr_clr_reg :: uint32
  timer_data :: "timer_data_t list"
  last_update_timer_value :: uint32

definition table_ok :: "sw_timer \<Rightarrow> bool" where
  "table_ok s = (length (timer_data s) = TMR_NUM)"

text \<open>The initial values of the globals: every register and every entry is zero.\<close>

definition initial_state :: sw_timer where
  "initial_state =
     \<lparr>tmr_val_reg = 0, tmr_cmp_reg = 0, tmr_clr_reg = 0,
      timer_data = replicate TMR_NUM \<lparr>wait_us = 0, remain = 0, times_fired = 0\<rparr>,
      last_update_timer_value = 0\<rparr>"

text \<open>
  What an operation prints for its caller: the two \<open>printf\<close> messages of \<open>set_timer\<close>
  and \<open>remove_timer\<close>. The functions are \<open>void\<close>; the message is the only report.
\<close>

datatype message =
  Timer_ID_exceeds_limit      \<comment> \<open>\<open>"ERROR: Timer ID exceeds limit, maximal is: 9"\<close>\<close>
| Timer_is_already_inactive   \<comment> \<open>\<open>"Timer is already inactive"\<close>\<close>

section \<open>The operations\<close>

subsection \<open>\<open>find_minimal_remain\<close>\<close>

text \<open>One iteration of the scan, at index \<open>i\<close>, with the minimum found so far.\<close>

definition find_minimal_remain_step :: "timer_data_t list \<Rightarrow> nat \<Rightarrow> uint32 \<Rightarrow> uint32" where
  "find_minimal_remain_step td i minimal_rem =
     (if wait_us (td ! i) = 0 then minimal_rem
      else let rem_i = remain (td ! i)
           in if rem_i < minimal_rem then rem_i else minimal_rem)"

definition find_minimal_remain :: "sw_timer \<Rightarrow> uint32" where
  "find_minimal_remain s =
     fold (find_minimal_remain_step (timer_data s)) [0..<TMR_NUM] 0xffffffff"

subsection \<open>\<open>set_timer\<close>\<close>

text \<open>One iteration of the loop that moves the other timers to the current time.\<close>

definition set_timer_step :: "nat \<Rightarrow> uint32 \<Rightarrow> nat \<Rightarrow> timer_data_t list \<Rightarrow> timer_data_t list" where
  "set_timer_step timer_id time_diff i td =
     (if timer_id = i then td
      else if wait_us (td ! i) = 0 then td
      else td[i := (td ! i)\<lparr>remain := remain (td ! i) - time_diff\<rparr>])"

definition set_timer :: "uint8 \<Rightarrow> uint32 \<Rightarrow> sw_timer \<Rightarrow> message option \<times> sw_timer" where
  "set_timer timer_id wait s =
     (if unat timer_id \<ge> TMR_NUM then (Some Timer_ID_exceeds_limit, s)
      else
        let td0 = (timer_data s)[unat timer_id :=
                     (timer_data s ! unat timer_id)
                       \<lparr>wait_us := wait, remain := wait, times_fired := 0\<rparr>];
            current_timer_value = tmr_val_reg s;
            time_diff = current_timer_value - last_update_timer_value s;
            td1 = fold (set_timer_step (unat timer_id) time_diff) [0..<TMR_NUM] td0;
            s1 = s\<lparr>timer_data := td1, last_update_timer_value := current_timer_value\<rparr>;
            min_remain = find_minimal_remain s1
        in (None, s1\<lparr>tmr_cmp_reg := current_timer_value + min_remain\<rparr>))"

subsection \<open>\<open>timer_interrupt\<close>\<close>

definition timer_interrupt_step :: "uint32 \<Rightarrow> nat \<Rightarrow> timer_data_t list \<Rightarrow> timer_data_t list" where
  "timer_interrupt_step min_remain i td =
     (if wait_us (td ! i) = 0 then td
      else
        let td1 = td[i := (td ! i)\<lparr>remain := remain (td ! i) - min_remain\<rparr>]
        in if remain (td1 ! i) = 0
           then td1[i := (td1 ! i)\<lparr>remain := wait_us (td1 ! i),
                                   times_fired := times_fired (td1 ! i) + 1\<rparr>]
           else td1)"

definition timer_interrupt :: "sw_timer \<Rightarrow> sw_timer" where
  "timer_interrupt s =
     (let min_remain = find_minimal_remain s;
          td1 = fold (timer_interrupt_step min_remain) [0..<TMR_NUM] (timer_data s);
          s1 = s\<lparr>timer_data := td1, last_update_timer_value := tmr_val_reg s\<rparr>;
          min_remain2 = find_minimal_remain s1
      in s1\<lparr>tmr_cmp_reg := last_update_timer_value s1 + min_remain2, tmr_clr_reg := 1\<rparr>)"

subsection \<open>\<open>remove_timer\<close>\<close>

definition remove_timer :: "uint8 \<Rightarrow> sw_timer \<Rightarrow> message option \<times> sw_timer" where
  "remove_timer timer_id s =
     (if unat timer_id \<ge> TMR_NUM then (Some Timer_ID_exceeds_limit, s)
      else if wait_us (timer_data s ! unat timer_id) = 0
      then (Some Timer_is_already_inactive, s)
      else (None, s\<lparr>timer_data := (timer_data s)[unat timer_id :=
                      (timer_data s ! unat timer_id)
                        \<lparr>wait_us := 0, remain := 0, times_fired := 0\<rparr>]\<rparr>))"

subsection \<open>The hardware counter and runs of the program\<close>

text \<open>
  \<open>hw_timer_thread\<close> increments the counter register (\<open>tmr_val_reg++\<close>, wrapping). The
  interrupt routine runs in a thread of its own, so between two increments any of the
  three operations of the core may run.
\<close>

definition hw_timer_tick :: "sw_timer \<Rightarrow> sw_timer" where
  "hw_timer_tick s = s\<lparr>tmr_val_reg := tmr_val_reg s + 1\<rparr>"

datatype command =
  Set_timer uint8 uint32
| Remove_timer uint8
| Timer_interrupt
| Hw_timer_tick

fun exec :: "command \<Rightarrow> sw_timer \<Rightarrow> sw_timer" where
  "exec (Set_timer timer_id wait) s = snd (set_timer timer_id wait s)"
| "exec (Remove_timer timer_id) s = snd (remove_timer timer_id s)"
| "exec Timer_interrupt s = timer_interrupt s"
| "exec Hw_timer_tick s = hw_timer_tick s"

definition run :: "command list \<Rightarrow> sw_timer \<Rightarrow> sw_timer" where
  "run cs s = fold exec cs s"

section \<open>The variant \<open>SW_Timer_theoretical.c\<close>\<close>

text \<open>
  The second file is the same core for the memory mapped hardware timer. Its struct has
  no \<open>times_fired\<close>, the registers are read and written through pointers, here the
  values they point to, and \<open>timer_interrupt\<close> prints a line where the executable
  program counts. \<open>find_minimal_remain\<close> is the same text in both files.
\<close>

record timer_data_th =
  th_wait_us :: uint32
  th_remain :: uint32

record hw_timer =
  th_tmr_val_reg :: uint32
  th_tmr_cmp_reg :: uint32
  th_tmr_int_clr_reg :: uint32
  th_timer_data :: "timer_data_th list"
  th_last_update_timer_value :: uint32

definition th_table_ok :: "hw_timer \<Rightarrow> bool" where
  "th_table_ok h = (length (th_timer_data h) = TMR_NUM)"

definition th_find_minimal_remain_step :: "timer_data_th list \<Rightarrow> nat \<Rightarrow> uint32 \<Rightarrow> uint32" where
  "th_find_minimal_remain_step td i minimal_rem =
     (if th_wait_us (td ! i) = 0 then minimal_rem
      else let rem_i = th_remain (td ! i)
           in if rem_i < minimal_rem then rem_i else minimal_rem)"

definition th_find_minimal_remain :: "hw_timer \<Rightarrow> uint32" where
  "th_find_minimal_remain h =
     fold (th_find_minimal_remain_step (th_timer_data h)) [0..<TMR_NUM] 0xffffffff"

definition th_timer_interrupt_step :: "uint32 \<Rightarrow> nat \<Rightarrow> timer_data_th list \<Rightarrow> timer_data_th list" where
  "th_timer_interrupt_step min_remain i td =
     (if th_wait_us (td ! i) = 0 then td
      else
        let td1 = td[i := (td ! i)\<lparr>th_remain := th_remain (td ! i) - min_remain\<rparr>]
        in if th_remain (td1 ! i) = 0
           then td1[i := (td1 ! i)\<lparr>th_remain := th_wait_us (td1 ! i)\<rparr>]
           else td1)"

definition th_timer_interrupt :: "hw_timer \<Rightarrow> hw_timer" where
  "th_timer_interrupt h =
     (let min_remain = th_find_minimal_remain h;
          td1 = fold (th_timer_interrupt_step min_remain) [0..<TMR_NUM] (th_timer_data h);
          h1 = h\<lparr>th_timer_data := td1, th_last_update_timer_value := th_tmr_val_reg h\<rparr>;
          min_remain2 = th_find_minimal_remain h1
      in h1\<lparr>th_tmr_cmp_reg := th_last_update_timer_value h1 + min_remain2,
            th_tmr_int_clr_reg := 1\<rparr>)"

text \<open>The state of the executable program with \<open>times_fired\<close> forgotten.\<close>

definition forget_times_fired :: "sw_timer \<Rightarrow> hw_timer" where
  "forget_times_fired s =
     \<lparr>th_tmr_val_reg = tmr_val_reg s, th_tmr_cmp_reg = tmr_cmp_reg s,
      th_tmr_int_clr_reg = tmr_clr_reg s,
      th_timer_data = map (\<lambda>t. \<lparr>th_wait_us = wait_us t, th_remain = remain t\<rparr>) (timer_data s),
      th_last_update_timer_value = last_update_timer_value s\<rparr>"

text \<open>Every state of the variant is a state of the executable program with \<open>times_fired\<close> forgotten.\<close>

definition with_times_fired :: "hw_timer \<Rightarrow> sw_timer" where
  "with_times_fired h =
     \<lparr>tmr_val_reg = th_tmr_val_reg h, tmr_cmp_reg = th_tmr_cmp_reg h,
      tmr_clr_reg = th_tmr_int_clr_reg h,
      timer_data = map (\<lambda>t. \<lparr>wait_us = th_wait_us t, remain = th_remain t, times_fired = 0\<rparr>)
                     (th_timer_data h),
      last_update_timer_value = th_last_update_timer_value h\<rparr>"

definition th_active_remains :: "hw_timer \<Rightarrow> uint32 list" where
  "th_active_remains h = map th_remain (filter (\<lambda>t. th_wait_us t \<noteq> 0) (th_timer_data h))"

section \<open>Notions used to state the properties\<close>

text \<open>The \<open>remain\<close> values of the active entries (\<open>wait_us \<noteq> 0\<close>), in table order.\<close>

definition active_remains :: "sw_timer \<Rightarrow> uint32 list" where
  "active_remains s = map remain (filter (\<lambda>t. wait_us t \<noteq> 0) (timer_data s))"

text \<open>Every active entry has \<open>0 \<le> remain \<le> wait_us\<close>.\<close>

definition remain_within_period :: "sw_timer \<Rightarrow> bool" where
  "remain_within_period s =
     list_all (\<lambda>t. wait_us t \<noteq> 0 \<longrightarrow> 0 \<le> remain t \<and> remain t \<le> wait_us t) (timer_data s)"

text \<open>A command that is \<open>set_timer\<close> on entry \<open>i\<close>.\<close>

fun sets_timer :: "nat \<Rightarrow> command \<Rightarrow> bool" where
  "sets_timer i (Set_timer timer_id wait) = (unat timer_id = i)"
| "sets_timer i c = False"

text \<open>Entry \<open>i\<close> is active in the state before every command of the run and at its end.\<close>

fun stays_active :: "nat \<Rightarrow> command list \<Rightarrow> sw_timer \<Rightarrow> bool" where
  "stays_active i [] s = (wait_us (timer_data s ! i) \<noteq> 0)"
| "stays_active i (c # cs) s =
     (wait_us (timer_data s ! i) \<noteq> 0 \<and> stays_active i cs (exec c s))"

subsection \<open>States of the scenarios\<close>

text \<open>
  Scenario A: \<open>set_timer(0, 100)\<close> then \<open>set_timer(1, 30)\<close>, the counter at 0 at both
  calls. Scenario B: from there the counter has reached the compare value 30.
\<close>

definition scenario_a :: sw_timer where
  "scenario_a = run [Set_timer 0 100, Set_timer 1 30] initial_state"

definition scenario_b :: sw_timer where
  "scenario_b = run (replicate 30 Hw_timer_tick) scenario_a"

text \<open>
  Scenario C starts after the interrupt of scenario B was served: entry 0 has
  \<open>remain = 70\<close>, entry 1 is active, and the compare register is armed at 60.
\<close>

definition scenario_c :: sw_timer where
  "scenario_c = run [Timer_interrupt] scenario_b"

text \<open>Scenario D starts from scenario A with the counter at 10.\<close>

definition scenario_d :: sw_timer where
  "scenario_d = run (replicate 10 Hw_timer_tick) scenario_a"

text \<open>Scenario E: two timers of period 30 set at 0, and the counter has reached 30.\<close>

definition scenario_e :: sw_timer where
  "scenario_e =
     run ([Set_timer 0 30, Set_timer 1 30] @ replicate 30 Hw_timer_tick) initial_state"

text \<open>
  A missed deadline: timer 0 is set with period 100 at 0 and the counter runs on to 150
  before the interrupt routine, which runs in its own thread, has been served.
\<close>

definition missed_deadline :: sw_timer where
  "missed_deadline = run (Set_timer 0 100 # replicate 150 Hw_timer_tick) initial_state"

text \<open>
  A lone timer of period 1, and the state after \<open>2\<^sup>3\<^sup>2 - 1\<close> rounds of one tick of the
  counter and the interrupt it raises.
\<close>

definition lone_timer :: sw_timer where
  "lone_timer = run [Set_timer 0 1] initial_state"

definition rounds :: "nat \<Rightarrow> command list" where
  "rounds n = concat (replicate n [Hw_timer_tick, Timer_interrupt])"

definition fired_max :: sw_timer where
  "fired_max = run (rounds (2 ^ 32 - 1)) lone_timer"

section \<open>The loops, entry by entry\<close>

text \<open>
  Each of the two updating loops visits the indices \<open>0..<TMR_NUM\<close> once and, at index
  \<open>i\<close>, rewrites entry \<open>i\<close> only. Such a loop changes every entry by the function of
  its body, whatever the order.
\<close>

lemma fold_index_length:
  assumes "\<And>i td. step i td = td[i := f i (td ! i)]"
  shows "length (fold step [0..<n] td) = length td"
  by (induction n) (simp_all add: assms)

lemma fold_index_nth:
  assumes "\<And>i td. step i td = td[i := f i (td ! i)]"
  shows "i < length td \<Longrightarrow>
         fold step [0..<n] td ! i = (if i < n then f i (td ! i) else td ! i)"
proof (induction n)
  case 0
  then show ?case by simp
next
  case (Suc n)
  let ?r = "fold step [0..<n] td"
  have len: "length ?r = length td"
    by (rule fold_index_length [OF assms])
  have "fold step [0..<Suc n] td = ?r[n := f n (?r ! n)]"
    by (simp add: assms [of n ?r])
  then show ?case
    using Suc len by (cases "i = n") (simp_all add: nth_list_update)
qed

lemma timer_interrupt_step_upd:
  "timer_interrupt_step m i td =
     td[i := (if wait_us (td ! i) = 0 then td ! i
              else if remain (td ! i) = m
              then (td ! i)\<lparr>remain := wait_us (td ! i), times_fired := times_fired (td ! i) + 1\<rparr>
              else (td ! i)\<lparr>remain := remain (td ! i) - m\<rparr>)]"
proof (cases "i < length td")
  case True
  then show ?thesis
    by (simp add: timer_interrupt_step_def Let_def)
next
  case False
  then have "length td \<le> i" by simp
  then show ?thesis
    by (simp add: timer_interrupt_step_def Let_def list_update_beyond)
qed

lemma set_timer_step_upd:
  "set_timer_step k d i td =
     td[i := (if k = i \<or> wait_us (td ! i) = 0 then td ! i
              else (td ! i)\<lparr>remain := remain (td ! i) - d\<rparr>)]"
  by (simp add: set_timer_step_def)

lemma find_minimal_remain_step_min:
  "find_minimal_remain_step td i m =
     (if wait_us (td ! i) = 0 then m else min (remain (td ! i)) m)"
  by (auto simp: find_minimal_remain_step_def Let_def min_def)

lemma fold_find_minimal_remain_step:
  "n \<le> length td \<Longrightarrow>
   fold (find_minimal_remain_step td) [0..<n] m =
     Min (insert m (set (map remain (filter (\<lambda>t. wait_us t \<noteq> 0) (take n td)))))"
proof (induction n)
  case 0
  then show ?case by simp
next
  case (Suc n)
  let ?A = "set (map remain (filter (\<lambda>t. wait_us t \<noteq> 0) (take n td)))"
  from Suc.prems have n: "n < length td" by simp
  from Suc have IH: "fold (find_minimal_remain_step td) [0..<n] m = Min (insert m ?A)"
    by simp
  have step: "fold (find_minimal_remain_step td) [0..<Suc n] m =
                find_minimal_remain_step td n (Min (insert m ?A))"
    using IH by simp
  show ?case
  proof (cases "wait_us (td ! n) = 0")
    case True
    with n show ?thesis
      unfolding step by (simp add: take_Suc_conv_app_nth find_minimal_remain_step_min)
  next
    case False
    have "min (remain (td ! n)) (Min (insert m ?A)) = Min (insert (remain (td ! n)) (insert m ?A))"
      by simp
    with False n show ?thesis
      unfolding step
      by (simp add: take_Suc_conv_app_nth find_minimal_remain_step_min insert_commute)
  qed
qed

section \<open>What the scan \<open>find_minimal_remain\<close> returns\<close>

lemma find_minimal_remain_Min:
  "table_ok s \<Longrightarrow>
   find_minimal_remain s = Min (insert 0xffffffff (set (active_remains s)))"
  using fold_find_minimal_remain_step [of TMR_NUM "timer_data s" "0xffffffff"]
  by (simp add: find_minimal_remain_def table_ok_def active_remains_def)

lemma uint32_max: "(w :: uint32) \<le> 0xffffffff"
proof -
  have "(0xffffffff :: uint32) = - 1" by simp
  then show ?thesis by (simp only: word_n1_ge)
qed

lemma find_minimal_remain_cases:
  assumes "table_ok s"
  shows "find_minimal_remain s =
           (if active_remains s = [] then 0xffffffff else Min (set (active_remains s)))"
proof (cases "active_remains s = []")
  case True
  with assms show ?thesis by (simp add: find_minimal_remain_Min)
next
  case False
  then have ne: "set (active_remains s) \<noteq> {}" by simp
  have "Min (insert 0xffffffff (set (active_remains s))) =
          min 0xffffffff (Min (set (active_remains s)))"
    using ne by simp
  also have "\<dots> = Min (set (active_remains s))"
    by (rule min_absorb2) (rule uint32_max)
  finally show ?thesis using assms False by (simp add: find_minimal_remain_Min)
qed

lemma find_minimal_remain_le:
  assumes "table_ok s" "i < TMR_NUM" "wait_us (timer_data s ! i) \<noteq> 0"
  shows "find_minimal_remain s \<le> remain (timer_data s ! i)"
proof -
  from assms have "timer_data s ! i \<in> set (timer_data s)"
    by (simp add: table_ok_def)
  with assms have "remain (timer_data s ! i) \<in> set (active_remains s)"
    by (simp add: active_remains_def)
  then show ?thesis
    using assms(1) by (simp add: find_minimal_remain_Min)
qed

section \<open>The table and the registers after \<open>timer_interrupt\<close>\<close>

lemma timer_data_timer_interrupt:
  "timer_data (timer_interrupt s) =
     fold (timer_interrupt_step (find_minimal_remain s)) [0..<TMR_NUM] (timer_data s)"
  by (simp add: timer_interrupt_def Let_def)

lemma fold_timer_interrupt_step_length:
  "length (fold (timer_interrupt_step m) [0..<n] td) = length td"
  by (rule fold_index_length
        [where f = "\<lambda>i t. if wait_us t = 0 then t
                    else if remain t = m
                    then t\<lparr>remain := wait_us t, times_fired := times_fired t + 1\<rparr>
                    else t\<lparr>remain := remain t - m\<rparr>"])
     (rule timer_interrupt_step_upd)

lemma fold_timer_interrupt_step_nth:
  "i < length td \<Longrightarrow>
   fold (timer_interrupt_step m) [0..<n] td ! i =
     (if i < n
      then (if wait_us (td ! i) = 0 then td ! i
            else if remain (td ! i) = m
            then (td ! i)\<lparr>remain := wait_us (td ! i), times_fired := times_fired (td ! i) + 1\<rparr>
            else (td ! i)\<lparr>remain := remain (td ! i) - m\<rparr>)
      else td ! i)"
  by (rule fold_index_nth
        [where f = "\<lambda>i t. if wait_us t = 0 then t
                    else if remain t = m
                    then t\<lparr>remain := wait_us t, times_fired := times_fired t + 1\<rparr>
                    else t\<lparr>remain := remain t - m\<rparr>"])
     (rule timer_interrupt_step_upd)

lemma table_ok_timer_interrupt:
  "table_ok (timer_interrupt s) = table_ok s"
  by (simp add: table_ok_def timer_data_timer_interrupt fold_timer_interrupt_step_length)

lemma timer_interrupt_entry:
  assumes "table_ok s" "i < TMR_NUM"
  shows "timer_data (timer_interrupt s) ! i =
     (let t = timer_data s ! i; m = find_minimal_remain s
      in if wait_us t = 0 then t
         else if remain t = m
         then t\<lparr>remain := wait_us t, times_fired := times_fired t + 1\<rparr>
         else t\<lparr>remain := remain t - m\<rparr>)"
  using assms
  by (simp add: timer_data_timer_interrupt table_ok_def Let_def
        fold_timer_interrupt_step_nth)

lemma timer_interrupt_registers:
  "tmr_val_reg (timer_interrupt s) = tmr_val_reg s \<and>
   last_update_timer_value (timer_interrupt s) = tmr_val_reg s \<and>
   tmr_cmp_reg (timer_interrupt s) = tmr_val_reg s + find_minimal_remain (timer_interrupt s) \<and>
   tmr_clr_reg (timer_interrupt s) = 1"
  by (simp add: timer_interrupt_def Let_def find_minimal_remain_def)

section \<open>The table and the registers after \<open>set_timer\<close>\<close>

lemma fold_set_timer_step_length:
  "length (fold (set_timer_step k d) [0..<n] td) = length td"
  by (rule fold_index_length
        [where f = "\<lambda>i t. if k = i \<or> wait_us t = 0 then t
                    else t\<lparr>remain := remain t - d\<rparr>"])
     (rule set_timer_step_upd)

lemma fold_set_timer_step_nth:
  "i < length td \<Longrightarrow>
   fold (set_timer_step k d) [0..<n] td ! i =
     (if i < n
      then (if k = i \<or> wait_us (td ! i) = 0 then td ! i
            else (td ! i)\<lparr>remain := remain (td ! i) - d\<rparr>)
      else td ! i)"
  by (rule fold_index_nth
        [where f = "\<lambda>i t. if k = i \<or> wait_us t = 0 then t
                    else t\<lparr>remain := remain t - d\<rparr>"])
     (rule set_timer_step_upd)

lemma set_timer_accepts:
  "unat timer_id < TMR_NUM \<Longrightarrow> fst (set_timer timer_id wait s) = None"
  by (simp add: set_timer_def Let_def)

lemma timer_data_set_timer:
  "unat timer_id < TMR_NUM \<Longrightarrow>
   timer_data (snd (set_timer timer_id wait s)) =
     fold (set_timer_step (unat timer_id) (tmr_val_reg s - last_update_timer_value s))
       [0..<TMR_NUM]
       ((timer_data s)[unat timer_id :=
          (timer_data s ! unat timer_id)\<lparr>wait_us := wait, remain := wait, times_fired := 0\<rparr>])"
  by (simp add: set_timer_def Let_def)

lemma table_ok_set_timer:
  "table_ok (snd (set_timer timer_id wait s)) = table_ok s"
proof (cases "unat timer_id < TMR_NUM")
  case True
  then show ?thesis
    by (simp add: table_ok_def timer_data_set_timer fold_set_timer_step_length)
next
  case False
  then show ?thesis by (simp add: set_timer_def)
qed

lemma set_timer_entry:
  assumes "table_ok s" "unat timer_id < TMR_NUM" "i < TMR_NUM"
  shows "timer_data (snd (set_timer timer_id wait s)) ! i =
     (let t = timer_data s ! i
      in if i = unat timer_id then t\<lparr>wait_us := wait, remain := wait, times_fired := 0\<rparr>
         else if wait_us t = 0 then t
         else t\<lparr>remain := remain t - (tmr_val_reg s - last_update_timer_value s)\<rparr>)"
  using assms
  by (auto simp add: timer_data_set_timer table_ok_def Let_def fold_set_timer_step_nth)

lemma set_timer_registers:
  "unat timer_id < TMR_NUM \<Longrightarrow>
   tmr_val_reg (snd (set_timer timer_id wait s)) = tmr_val_reg s \<and>
   last_update_timer_value (snd (set_timer timer_id wait s)) = tmr_val_reg s \<and>
   tmr_cmp_reg (snd (set_timer timer_id wait s)) =
     tmr_val_reg s + find_minimal_remain (snd (set_timer timer_id wait s)) \<and>
   tmr_clr_reg (snd (set_timer timer_id wait s)) = tmr_clr_reg s"
  by (simp add: set_timer_def Let_def find_minimal_remain_def)

section \<open>The minimum is the \<open>remain\<close> of an active entry\<close>

lemma find_minimal_remain_in_set:
  assumes "table_ok s" "active_remains s \<noteq> []"
  shows "find_minimal_remain s \<in> set (active_remains s)"
proof -
  have "Min (set (active_remains s)) \<in> set (active_remains s)"
    using assms(2) by (simp only: Min_in List.finite_set set_empty not_False_eq_True)
  with assms show ?thesis
    by (simp add: find_minimal_remain_cases)
qed

lemma find_minimal_remain_nonzero:
  assumes "table_ok s" "active_remains s \<noteq> []" "0 \<notin> set (active_remains s)"
  shows "find_minimal_remain s \<noteq> 0"
proof
  assume "find_minimal_remain s = 0"
  with find_minimal_remain_in_set [OF assms(1,2)] have "0 \<in> set (active_remains s)"
    by simp
  with assms(3) show False by simp
qed

lemma find_minimal_remain_attained:
  assumes "table_ok s" "active_remains s \<noteq> []"
  shows "\<exists>i<TMR_NUM. wait_us (timer_data s ! i) \<noteq> 0 \<and>
           remain (timer_data s ! i) = find_minimal_remain s"
proof -
  from find_minimal_remain_in_set [OF assms]
  obtain t where t: "t \<in> set (timer_data s)" "wait_us t \<noteq> 0"
      "remain t = find_minimal_remain s"
    by (auto simp: active_remains_def)
  from t(1) obtain i where "i < length (timer_data s)" "timer_data s ! i = t"
    by (auto simp: in_set_conv_nth)
  with t assms(1) show ?thesis
    by (auto simp: table_ok_def)
qed

section \<open>Properties of \<open>find_minimal_remain\<close> and \<open>timer_interrupt\<close>\<close>

text \<open>
  C5. In every state, \<open>find_minimal_remain\<close> returns the smallest \<open>remain\<close> among the
  active entries (\<open>wait_us \<noteq> 0\<close>), and \<open>0xffffffff\<close>, the largest 32-bit value, when
  no entry is active. It is a function of the state alone and returns only a value: it
  writes no global.
\<close>

theorem find_minimal_remain_smallest:
  "table_ok s \<Longrightarrow>
     find_minimal_remain s =
       (if active_remains s = [] then 0xffffffff else Min (set (active_remains s))) \<and>
     (\<forall>w :: uint32. w \<le> 0xffffffff)"
  using find_minimal_remain_cases [of s] uint32_max by simp

theorem find_minimal_remain_smallest_witness:
  "table_ok scenario_a \<and> active_remains scenario_a = [100, 30] \<and>
   find_minimal_remain scenario_a = 30 \<and>
   table_ok initial_state \<and> active_remains initial_state = [] \<and>
   find_minimal_remain initial_state = 0xffffffff"
proof -
  have a: "table_ok scenario_a" by code_simp
  have b: "active_remains scenario_a = [100, 30]" by code_simp
  have i: "table_ok initial_state" by code_simp
  have j: "active_remains initial_state = []" by code_simp
  from find_minimal_remain_smallest [OF a] find_minimal_remain_smallest [OF i] a b i j
  show ?thesis by simp
qed

text \<open>
  C1. In every state with at least one active entry, one call of \<open>timer_interrupt\<close>
  subtracts \<open>min_remain = find_minimal_remain()\<close> from \<open>remain\<close> of every active entry.
  Exactly the active entries whose \<open>remain\<close> thereby becomes zero fire: their \<open>remain\<close>
  is reloaded with \<open>wait_us\<close> and their \<open>times_fired\<close> goes up by one. Every active entry
  whose \<open>remain\<close> equals the minimum fires in that same call. Inactive entries are left
  as they were.
\<close>

theorem timer_interrupt_advances_and_fires:
  assumes "table_ok s" and "active_remains s \<noteq> []" and "i < TMR_NUM"
  shows "let m = find_minimal_remain s;
             t = timer_data s ! i;
             t' = timer_data (timer_interrupt s) ! i
         in (wait_us t = 0 \<longrightarrow> t' = t) \<and>
            (wait_us t \<noteq> 0 \<and> remain t - m = 0 \<longrightarrow>
               t' = t\<lparr>remain := wait_us t, times_fired := times_fired t + 1\<rparr>) \<and>
            (wait_us t \<noteq> 0 \<and> remain t - m \<noteq> 0 \<longrightarrow>
               t' = t\<lparr>remain := remain t - m\<rparr>) \<and>
            (wait_us t \<noteq> 0 \<and> remain t = m \<longrightarrow>
               t' = t\<lparr>remain := wait_us t, times_fired := times_fired t + 1\<rparr>)"
  using timer_interrupt_entry [OF assms(1,3)] by (simp add: Let_def)

theorem timer_interrupt_advances_and_fires_witness:
  "table_ok scenario_e \<and> active_remains scenario_e \<noteq> [] \<and> (0::nat) < TMR_NUM \<and>
   (1::nat) < TMR_NUM \<and> (2::nat) < TMR_NUM \<and>
   timer_data (timer_interrupt scenario_e) ! 0 = \<lparr>wait_us = 30, remain = 30, times_fired = 1\<rparr> \<and>
   timer_data (timer_interrupt scenario_e) ! 1 = \<lparr>wait_us = 30, remain = 30, times_fired = 1\<rparr> \<and>
   timer_data (timer_interrupt scenario_e) ! 2 = \<lparr>wait_us = 0, remain = 0, times_fired = 0\<rparr> \<and>
   table_ok scenario_b \<and> active_remains scenario_b \<noteq> [] \<and>
   timer_data (timer_interrupt scenario_b) ! 0 = \<lparr>wait_us = 100, remain = 70, times_fired = 0\<rparr> \<and>
   timer_data (timer_interrupt scenario_b) ! 1 = \<lparr>wait_us = 30, remain = 30, times_fired = 1\<rparr>"
proof -
  have e: "table_ok scenario_e" "active_remains scenario_e \<noteq> []" by code_simp+
  have b: "table_ok scenario_b" "active_remains scenario_b \<noteq> []" by code_simp+
  have n: "(0::nat) < TMR_NUM" "(1::nat) < TMR_NUM" "(2::nat) < TMR_NUM" by code_simp+
  have me: "find_minimal_remain scenario_e = 30" by code_simp
  have mb: "find_minimal_remain scenario_b = 30" by code_simp
  have te: "timer_data scenario_e ! 0 = \<lparr>wait_us = 30, remain = 30, times_fired = 0\<rparr>"
    "timer_data scenario_e ! Suc 0 = \<lparr>wait_us = 30, remain = 30, times_fired = 0\<rparr>"
    "timer_data scenario_e ! 2 = \<lparr>wait_us = 0, remain = 0, times_fired = 0\<rparr>"
    by code_simp+
  have tb: "timer_data scenario_b ! 0 = \<lparr>wait_us = 100, remain = 100, times_fired = 0\<rparr>"
    "timer_data scenario_b ! Suc 0 = \<lparr>wait_us = 30, remain = 30, times_fired = 0\<rparr>"
    by code_simp+
  from timer_interrupt_advances_and_fires [OF e n(1)]
       timer_interrupt_advances_and_fires [OF e n(2)]
       timer_interrupt_advances_and_fires [OF e n(3)]
       timer_interrupt_advances_and_fires [OF b n(1)]
       timer_interrupt_advances_and_fires [OF b n(2)]
  show ?thesis
    using e b n by (simp add: Let_def me mb te tb)
qed

text \<open>
  C10. Right after any call of \<open>timer_interrupt\<close>, every active entry has
  \<open>remain \<noteq> 0\<close>: an entry that fired was reloaded with its nonzero \<open>wait_us\<close>, and one
  that did not fire keeps a nonzero difference. So, while any timer is active, the value
  written to the compare register is \<open>last_update_timer_value\<close> plus a nonzero offset.
\<close>

theorem timer_interrupt_remain_nonzero:
  assumes "table_ok s"
  shows "(\<forall>i<TMR_NUM. wait_us (timer_data (timer_interrupt s) ! i) \<noteq> 0 \<longrightarrow>
            remain (timer_data (timer_interrupt s) ! i) \<noteq> 0) \<and>
         (active_remains (timer_interrupt s) \<noteq> [] \<longrightarrow>
            tmr_cmp_reg (timer_interrupt s) =
              last_update_timer_value (timer_interrupt s) +
              find_minimal_remain (timer_interrupt s) \<and>
            find_minimal_remain (timer_interrupt s) \<noteq> 0)"
proof -
  let ?s' = "timer_interrupt s"
  have ok: "table_ok ?s'"
    using assms by (simp add: table_ok_timer_interrupt)
  have entries: "\<forall>i<TMR_NUM. wait_us (timer_data ?s' ! i) \<noteq> 0 \<longrightarrow>
                   remain (timer_data ?s' ! i) \<noteq> 0"
    using assms by (auto simp: timer_interrupt_entry Let_def)
  have "0 \<notin> set (active_remains ?s')"
  proof
    assume "0 \<in> set (active_remains ?s')"
    then obtain t where t: "t \<in> set (timer_data ?s')" "wait_us t \<noteq> 0" "remain t = 0"
      by (auto simp: active_remains_def)
    from t(1) obtain i where "i < length (timer_data ?s')" "timer_data ?s' ! i = t"
      by (auto simp: in_set_conv_nth)
    with ok t entries show False
      by (auto simp: table_ok_def)
  qed
  then have "active_remains ?s' \<noteq> [] \<longrightarrow> find_minimal_remain ?s' \<noteq> 0"
    using ok by (simp add: find_minimal_remain_nonzero)
  with entries timer_interrupt_registers [of s] show ?thesis
    by simp
qed

theorem timer_interrupt_remain_nonzero_witness:
  "table_ok scenario_b \<and>
   wait_us (timer_data (timer_interrupt scenario_b) ! 0) \<noteq> 0 \<and>
   remain (timer_data (timer_interrupt scenario_b) ! 0) \<noteq> 0 \<and>
   wait_us (timer_data (timer_interrupt scenario_b) ! 1) \<noteq> 0 \<and>
   remain (timer_data (timer_interrupt scenario_b) ! 1) \<noteq> 0 \<and>
   active_remains (timer_interrupt scenario_b) \<noteq> [] \<and>
   tmr_cmp_reg (timer_interrupt scenario_b) =
     last_update_timer_value (timer_interrupt scenario_b) +
     find_minimal_remain (timer_interrupt scenario_b) \<and>
   find_minimal_remain (timer_interrupt scenario_b) \<noteq> 0 \<and>
   last_update_timer_value (timer_interrupt scenario_b) = 30 \<and>
   tmr_cmp_reg (timer_interrupt scenario_b) = 60"
proof -
  have b: "table_ok scenario_b" by code_simp
  have n: "(0 :: nat) < TMR_NUM" "(1 :: nat) < TMR_NUM" by code_simp+
  have w: "wait_us (timer_data (timer_interrupt scenario_b) ! 0) \<noteq> 0"
    "wait_us (timer_data (timer_interrupt scenario_b) ! 1) \<noteq> 0"
    by code_simp+
  have a: "active_remains (timer_interrupt scenario_b) \<noteq> []" by code_simp
  have c: "last_update_timer_value (timer_interrupt scenario_b) = 30"
    "tmr_cmp_reg (timer_interrupt scenario_b) = 60" by code_simp+
  note t = timer_interrupt_remain_nonzero [OF b]
  from t n w have "remain (timer_data (timer_interrupt scenario_b) ! 0) \<noteq> 0"
    and "remain (timer_data (timer_interrupt scenario_b) ! 1) \<noteq> 0"
    by blast+
  moreover from t a have "tmr_cmp_reg (timer_interrupt scenario_b) =
     last_update_timer_value (timer_interrupt scenario_b) +
     find_minimal_remain (timer_interrupt scenario_b)"
    and "find_minimal_remain (timer_interrupt scenario_b) \<noteq> 0"
    by blast+
  ultimately show ?thesis
    using b w a c by blast
qed

section \<open>Properties of \<open>set_timer\<close>\<close>

text \<open>
  C2. For every valid id and every period \<open>wait \<noteq> 0\<close>, \<open>set_timer\<close> reports nothing and has
  exactly this effect, with \<open>now\<close> the counter reading and
  \<open>elapsed = now - last_update_timer_value\<close> (wrapping): the named entry becomes
  \<open>wait_us = remain = wait\<close>, \<open>times_fired = 0\<close>; every other active entry has \<open>elapsed\<close>
  subtracted from its \<open>remain\<close> (wrapping); inactive entries stay as they were;
  \<open>last_update_timer_value\<close> becomes \<open>now\<close>; the compare register is written with
  \<open>now\<close> plus the smallest \<open>remain\<close> among the active entries; the other registers are
  not written. In scenario A the compare register is armed at 30.
\<close>

theorem set_timer_effect:
  assumes "table_ok s" and "unat timer_id < TMR_NUM" and "wait \<noteq> 0"
  shows "let now = tmr_val_reg s;
             elapsed = now - last_update_timer_value s;
             s' = snd (set_timer timer_id wait s)
         in fst (set_timer timer_id wait s) = None \<and>
            table_ok s' \<and>
            (\<forall>i<TMR_NUM.
               timer_data s' ! i =
                 (if i = unat timer_id
                  then \<lparr>wait_us = wait, remain = wait, times_fired = 0\<rparr>
                  else if wait_us (timer_data s ! i) \<noteq> 0
                  then (timer_data s ! i)\<lparr>remain := remain (timer_data s ! i) - elapsed\<rparr>
                  else timer_data s ! i)) \<and>
            last_update_timer_value s' = now \<and>
            active_remains s' \<noteq> [] \<and>
            tmr_cmp_reg s' = now + Min (set (active_remains s')) \<and>
            tmr_val_reg s' = tmr_val_reg s \<and>
            tmr_clr_reg s' = tmr_clr_reg s \<and>
            tmr_cmp_reg scenario_a = 30"
proof -
  let ?s' = "snd (set_timer timer_id wait s)"
  have ok: "table_ok ?s'"
    using assms(1) by (simp add: table_ok_set_timer)
  have entries: "\<forall>i<TMR_NUM.
       timer_data ?s' ! i =
         (if i = unat timer_id
          then \<lparr>wait_us = wait, remain = wait, times_fired = 0\<rparr>
          else if wait_us (timer_data s ! i) \<noteq> 0
          then (timer_data s ! i)
                 \<lparr>remain := remain (timer_data s ! i) -
                              (tmr_val_reg s - last_update_timer_value s)\<rparr>
          else timer_data s ! i)"
    using assms(1,2) by (simp add: set_timer_entry Let_def)
  have "timer_data ?s' ! unat timer_id \<in> set (timer_data ?s')"
    using ok assms(2) by (simp add: table_ok_def)
  moreover have "wait_us (timer_data ?s' ! unat timer_id) \<noteq> 0"
    using entries assms(2,3) by simp
  ultimately have ne: "active_remains ?s' \<noteq> []"
    by (auto simp: active_remains_def filter_empty_conv)
  have a: "tmr_cmp_reg scenario_a = 30"
    by code_simp
  show ?thesis
    using ok entries ne a set_timer_registers [OF assms(2), of wait s]
      set_timer_accepts [OF assms(2), of wait s] find_minimal_remain_cases [OF ok]
    by (simp add: Let_def)
qed

theorem set_timer_effect_witness:
  "table_ok (run [Set_timer 0 100] initial_state) \<and>
   unat (1 :: uint8) < TMR_NUM \<and> (30 :: uint32) \<noteq> 0 \<and>
   fst (set_timer 1 30 (run [Set_timer 0 100] initial_state)) = None \<and>
   timer_data (snd (set_timer 1 30 (run [Set_timer 0 100] initial_state))) ! 0 =
     \<lparr>wait_us = 100, remain = 100, times_fired = 0\<rparr> \<and>
   timer_data (snd (set_timer 1 30 (run [Set_timer 0 100] initial_state))) ! 1 =
     \<lparr>wait_us = 30, remain = 30, times_fired = 0\<rparr> \<and>
   timer_data (snd (set_timer 1 30 (run [Set_timer 0 100] initial_state))) ! 2 =
     \<lparr>wait_us = 0, remain = 0, times_fired = 0\<rparr> \<and>
   last_update_timer_value (snd (set_timer 1 30 (run [Set_timer 0 100] initial_state))) = 0 \<and>
   tmr_cmp_reg (snd (set_timer 1 30 (run [Set_timer 0 100] initial_state))) = 30"
proof -
  let ?s = "run [Set_timer 0 100] initial_state"
  have h: "table_ok ?s" "unat (1 :: uint8) < TMR_NUM" "(30 :: uint32) \<noteq> 0"
    by code_simp+
  have n: "(0 :: nat) < TMR_NUM" "Suc 0 < TMR_NUM" "(2 :: nat) < TMR_NUM" by code_simp+
  have s: "tmr_val_reg ?s = 0" "last_update_timer_value ?s = 0"
    "timer_data ?s ! 0 = \<lparr>wait_us = 100, remain = 100, times_fired = 0\<rparr>"
    "timer_data ?s ! 2 = \<lparr>wait_us = 0, remain = 0, times_fired = 0\<rparr>"
    by code_simp+
  have a: "active_remains (snd (set_timer 1 30 ?s)) = [100, 30]" by code_simp
  from set_timer_effect [OF h] n show ?thesis
    using h by (simp add: Let_def s a)
qed

text \<open>
  C3. The claim: \<open>set_timer\<close> with period 0 is rejected with an invalid-period error and
  leaves the table, \<open>last_update_timer_value\<close> and the compare register unchanged.
  \<open>set_timer\<close> has no check of the period. In scenario D, \<open>set_timer(5, 0)\<close> reports
  nothing and moves the table and \<open>last_update_timer_value\<close> to the current time; in
  scenario A, \<open>set_timer(1, 0)\<close> deactivates the active entry 1 and rewrites the compare
  register.
\<close>

theorem set_timer_zero_not_rejected:
  "fst (set_timer 5 0 scenario_d) = None \<and>
   timer_data scenario_d ! 0 = \<lparr>wait_us = 100, remain = 100, times_fired = 0\<rparr> \<and>
   timer_data (snd (set_timer 5 0 scenario_d)) ! 0 =
     \<lparr>wait_us = 100, remain = 90, times_fired = 0\<rparr> \<and>
   last_update_timer_value scenario_d = 0 \<and>
   last_update_timer_value (snd (set_timer 5 0 scenario_d)) = 10 \<and>
   fst (set_timer 1 0 scenario_a) = None \<and>
   timer_data scenario_a ! 1 = \<lparr>wait_us = 30, remain = 30, times_fired = 0\<rparr> \<and>
   timer_data (snd (set_timer 1 0 scenario_a)) ! 1 =
     \<lparr>wait_us = 0, remain = 0, times_fired = 0\<rparr> \<and>
   tmr_cmp_reg scenario_a = 30 \<and>
   tmr_cmp_reg (snd (set_timer 1 0 scenario_a)) = 100"
  by code_simp

text \<open>
  C3 as the code has it. For every valid id, \<open>set_timer\<close> with period 0 is accepted
  without any report and acts as for any other period: the named entry becomes
  \<open>wait_us = remain = 0\<close>, \<open>times_fired = 0\<close>, that is, inactive; every other active entry
  has \<open>elapsed\<close> subtracted from its \<open>remain\<close>; \<open>last_update_timer_value\<close> becomes the
  counter reading; and the compare register is written with the counter reading plus
  the smallest \<open>remain\<close> among the entries still active, or plus \<open>0xffffffff\<close> when none
  is. For an id beyond the table the call is rejected with the id error and changes
  nothing.
\<close>

theorem set_timer_zero_effect:
  assumes "table_ok s"
  shows "let now = tmr_val_reg s;
             elapsed = now - last_update_timer_value s;
             s' = snd (set_timer timer_id 0 s)
         in (unat timer_id < TMR_NUM \<longrightarrow>
               fst (set_timer timer_id 0 s) = None \<and>
               table_ok s' \<and>
               (\<forall>i<TMR_NUM.
                  timer_data s' ! i =
                    (if i = unat timer_id
                     then \<lparr>wait_us = 0, remain = 0, times_fired = 0\<rparr>
                     else if wait_us (timer_data s ! i) \<noteq> 0
                     then (timer_data s ! i)\<lparr>remain := remain (timer_data s ! i) - elapsed\<rparr>
                     else timer_data s ! i)) \<and>
               last_update_timer_value s' = now \<and>
               tmr_cmp_reg s' =
                 now + (if active_remains s' = [] then 0xffffffff
                        else Min (set (active_remains s'))) \<and>
               tmr_val_reg s' = tmr_val_reg s \<and>
               tmr_clr_reg s' = tmr_clr_reg s) \<and>
            (TMR_NUM \<le> unat timer_id \<longrightarrow>
               set_timer timer_id 0 s = (Some Timer_ID_exceeds_limit, s))"
proof (cases "unat timer_id < TMR_NUM")
  case True
  let ?s' = "snd (set_timer timer_id 0 s)"
  have ok: "table_ok ?s'"
    using assms by (simp add: table_ok_set_timer)
  have entries: "\<forall>i<TMR_NUM.
       timer_data ?s' ! i =
         (if i = unat timer_id
          then \<lparr>wait_us = 0, remain = 0, times_fired = 0\<rparr>
          else if wait_us (timer_data s ! i) \<noteq> 0
          then (timer_data s ! i)
                 \<lparr>remain := remain (timer_data s ! i) -
                              (tmr_val_reg s - last_update_timer_value s)\<rparr>
          else timer_data s ! i)"
    using assms True by (simp add: set_timer_entry Let_def)
  show ?thesis
    using True ok entries set_timer_registers [OF True, of 0 s]
      set_timer_accepts [OF True, of 0 s] find_minimal_remain_cases [OF ok]
    by (simp add: Let_def)
next
  case False
  then show ?thesis
    by (simp add: set_timer_def Let_def)
qed

theorem set_timer_zero_effect_witness:
  "table_ok scenario_a \<and> unat (1 :: uint8) < TMR_NUM \<and>
   fst (set_timer 1 0 scenario_a) = None \<and>
   timer_data (snd (set_timer 1 0 scenario_a)) ! 1 =
     \<lparr>wait_us = 0, remain = 0, times_fired = 0\<rparr> \<and>
   last_update_timer_value (snd (set_timer 1 0 scenario_a)) = tmr_val_reg scenario_a \<and>
   table_ok initial_state \<and> TMR_NUM \<le> unat (10 :: uint8) \<and>
   set_timer 10 0 initial_state = (Some Timer_ID_exceeds_limit, initial_state)"
proof -
  have a: "table_ok scenario_a" and n: "unat (1 :: uint8) < TMR_NUM" by code_simp+
  have i: "table_ok initial_state" and m: "TMR_NUM \<le> unat (10 :: uint8)" by code_simp+
  from set_timer_zero_effect [OF a, of 1] set_timer_zero_effect [OF i, of 10] a n i m
  show ?thesis by (simp add: Let_def)
qed

section \<open>Properties of \<open>remove_timer\<close>\<close>

lemma timer_data_t_overwrite:
  "(t :: timer_data_t)\<lparr>wait_us := a, remain := b, times_fired := c\<rparr> =
     \<lparr>wait_us = a, remain = b, times_fired = c\<rparr>"
  by (cases t) simp

text \<open>
  C6. For every valid id whose entry is active, \<open>remove_timer\<close> sets \<open>wait_us\<close>, \<open>remain\<close>
  and \<open>times_fired\<close> of that entry to zero and changes nothing else: every other entry,
  \<open>last_update_timer_value\<close> and the compare register are as before. In scenario C the
  compare register stays armed at 60.
\<close>

theorem remove_timer_clears_one_entry:
  assumes "table_ok s" and "unat timer_id < TMR_NUM"
    and "wait_us (timer_data s ! unat timer_id) \<noteq> 0"
  shows "let s' = snd (remove_timer timer_id s)
         in fst (remove_timer timer_id s) = None \<and>
            s' = s\<lparr>timer_data := (timer_data s)[unat timer_id :=
                      \<lparr>wait_us = 0, remain = 0, times_fired = 0\<rparr>]\<rparr> \<and>
            timer_data s' ! unat timer_id = \<lparr>wait_us = 0, remain = 0, times_fired = 0\<rparr> \<and>
            (\<forall>j. j \<noteq> unat timer_id \<longrightarrow> timer_data s' ! j = timer_data s ! j) \<and>
            table_ok s' \<and>
            last_update_timer_value s' = last_update_timer_value s \<and>
            tmr_cmp_reg s' = tmr_cmp_reg s \<and>
            tmr_val_reg s' = tmr_val_reg s \<and>
            tmr_clr_reg s' = tmr_clr_reg s"
  using assms by (simp add: remove_timer_def table_ok_def Let_def timer_data_t_overwrite)

theorem remove_timer_clears_one_entry_witness:
  "table_ok scenario_c \<and> unat (1 :: uint8) < TMR_NUM \<and>
   wait_us (timer_data scenario_c ! unat (1 :: uint8)) \<noteq> 0 \<and>
   fst (remove_timer 1 scenario_c) = None \<and>
   timer_data (snd (remove_timer 1 scenario_c)) ! 1 =
     \<lparr>wait_us = 0, remain = 0, times_fired = 0\<rparr> \<and>
   timer_data (snd (remove_timer 1 scenario_c)) ! 0 =
     \<lparr>wait_us = 100, remain = 70, times_fired = 0\<rparr> \<and>
   tmr_cmp_reg (snd (remove_timer 1 scenario_c)) = 60 \<and>
   last_update_timer_value (snd (remove_timer 1 scenario_c)) = 30"
proof -
  have h: "table_ok scenario_c" "unat (1 :: uint8) < TMR_NUM"
    "wait_us (timer_data scenario_c ! unat (1 :: uint8)) \<noteq> 0"
    by code_simp+
  have c: "timer_data scenario_c ! 0 = \<lparr>wait_us = 100, remain = 70, times_fired = 0\<rparr>"
    "tmr_cmp_reg scenario_c = 60" "last_update_timer_value scenario_c = 30"
    by code_simp+
  from remove_timer_clears_one_entry [OF h] h c show ?thesis
    by (simp add: Let_def table_ok_def)
qed

text \<open>
  C7. \<open>remove_timer\<close> is idempotent: for every valid id, the second of two calls in a
  row finds the entry inactive, prints the notice that the timer is already inactive
  (not the error message) and changes no global, so two calls leave the same state as
  one.
\<close>

theorem remove_timer_idempotent:
  assumes "table_ok s" and "unat timer_id < TMR_NUM"
  shows "remove_timer timer_id (snd (remove_timer timer_id s)) =
           (Some Timer_is_already_inactive, snd (remove_timer timer_id s))"
  using assms by (simp add: remove_timer_def table_ok_def)

theorem remove_timer_idempotent_witness:
  "table_ok scenario_c \<and> unat (1 :: uint8) < TMR_NUM \<and>
   remove_timer 1 (snd (remove_timer 1 scenario_c)) =
     (Some Timer_is_already_inactive, snd (remove_timer 1 scenario_c)) \<and>
   fst (remove_timer 1 scenario_c) = None"
proof -
  have h: "table_ok scenario_c" "unat (1 :: uint8) < TMR_NUM" by code_simp+
  have f: "fst (remove_timer 1 scenario_c) = None" by code_simp
  from remove_timer_idempotent [OF h] h f show ?thesis by simp
qed

section \<open>Identifiers beyond the table\<close>

text \<open>
  C9. For every id outside the table (\<open>timer_id \<ge> 10\<close>), \<open>set_timer\<close> with any period
  and \<open>remove_timer\<close> both report the id error and return with no global changed: the
  table, \<open>last_update_timer_value\<close> and the compare register are as before.
\<close>

theorem invalid_id_rejected:
  "unat timer_id \<ge> TMR_NUM \<Longrightarrow>
     set_timer timer_id wait s = (Some Timer_ID_exceeds_limit, s) \<and>
     remove_timer timer_id s = (Some Timer_ID_exceeds_limit, s)"
  by (simp add: set_timer_def remove_timer_def)

theorem invalid_id_rejected_witness:
  "unat (10 :: uint8) \<ge> TMR_NUM \<and>
   set_timer 10 7 initial_state = (Some Timer_ID_exceeds_limit, initial_state) \<and>
   remove_timer 10 initial_state = (Some Timer_ID_exceeds_limit, initial_state)"
  using invalid_id_rejected [of 10 7 initial_state] by (simp add: TMR_NUM_def)

section \<open>The bound of \<open>remain\<close> by the period\<close>

lemma remain_within_period_nth:
  "table_ok s \<Longrightarrow>
   remain_within_period s =
     (\<forall>i<TMR_NUM. wait_us (timer_data s ! i) \<noteq> 0 \<longrightarrow>
        remain (timer_data s ! i) \<le> wait_us (timer_data s ! i))"
  by (simp add: remain_within_period_def table_ok_def list_all_length)

lemma table_ok_remove_timer:
  "table_ok (snd (remove_timer timer_id s)) = table_ok s"
  by (simp add: remove_timer_def table_ok_def)

lemma remain_within_period_timer_interrupt:
  assumes "table_ok s" and "remain_within_period s"
  shows "remain_within_period (timer_interrupt s)"
proof -
  have "remain (timer_data (timer_interrupt s) ! i) \<le> wait_us (timer_data (timer_interrupt s) ! i)"
    if i: "i < TMR_NUM" and a: "wait_us (timer_data (timer_interrupt s) ! i) \<noteq> 0" for i
  proof -
    let ?t = "timer_data s ! i"
    from a i assms(1) have act: "wait_us ?t \<noteq> 0"
      by (auto simp: timer_interrupt_entry Let_def split: if_splits)
    with assms i have le: "remain ?t \<le> wait_us ?t"
      by (simp add: remain_within_period_nth)
    have "find_minimal_remain s \<le> remain ?t"
      using assms(1) i act by (rule find_minimal_remain_le)
    then have "remain ?t - find_minimal_remain s \<le> remain ?t"
      by (rule word_sub_le)
    from this le have "remain ?t - find_minimal_remain s \<le> wait_us ?t"
      by (rule order_trans)
    with act i assms(1) show ?thesis
      by (simp add: timer_interrupt_entry Let_def)
  qed
  then show ?thesis
    using assms(1) by (simp add: remain_within_period_nth table_ok_timer_interrupt)
qed

lemma remain_within_period_remove_timer:
  assumes "table_ok s" and "remain_within_period s"
  shows "remain_within_period (snd (remove_timer timer_id s))"
proof -
  have "remain (timer_data (snd (remove_timer timer_id s)) ! i)
          \<le> wait_us (timer_data (snd (remove_timer timer_id s)) ! i)"
    if i: "i < TMR_NUM" and a: "wait_us (timer_data (snd (remove_timer timer_id s)) ! i) \<noteq> 0" for i
    using assms i a
    by (auto simp: remove_timer_def remain_within_period_nth table_ok_def nth_list_update
          split: if_splits)
  then show ?thesis
    using assms(1) by (simp add: remain_within_period_nth table_ok_remove_timer)
qed

lemma remain_within_period_set_timer:
  assumes "table_ok s" and "remain_within_period s"
    and "\<forall>i<TMR_NUM. i \<noteq> unat timer_id \<and> wait_us (timer_data s ! i) \<noteq> 0 \<longrightarrow>
           tmr_val_reg s - last_update_timer_value s \<le> remain (timer_data s ! i)"
  shows "remain_within_period (snd (set_timer timer_id wait s))"
proof (cases "unat timer_id < TMR_NUM")
  case False
  with assms(2) show ?thesis by (simp add: set_timer_def)
next
  case True
  let ?s' = "snd (set_timer timer_id wait s)"
  let ?d = "tmr_val_reg s - last_update_timer_value s"
  have "remain (timer_data ?s' ! i) \<le> wait_us (timer_data ?s' ! i)"
    if i: "i < TMR_NUM" and a: "wait_us (timer_data ?s' ! i) \<noteq> 0" for i
  proof (cases "i = unat timer_id")
    case True
    with assms(1) i show ?thesis
      by (simp add: set_timer_entry Let_def)
  next
    case False
    let ?t = "timer_data s ! i"
    from a i False True assms(1) have act: "wait_us ?t \<noteq> 0"
      by (auto simp: set_timer_entry Let_def split: if_splits)
    with assms(1,2) i have le: "remain ?t \<le> wait_us ?t"
      by (simp add: remain_within_period_nth)
    from assms(3) i False act have "?d \<le> remain ?t" by simp
    then have "remain ?t - ?d \<le> remain ?t"
      by (rule word_sub_le)
    from this le have "remain ?t - ?d \<le> wait_us ?t"
      by (rule order_trans)
    with act i False True assms(1) show ?thesis
      by (simp add: set_timer_entry Let_def)
  qed
  then show ?thesis
    using assms(1) by (simp add: remain_within_period_nth table_ok_set_timer)
qed

text \<open>
  C4. The claim: \<open>0 \<le> remain \<le> wait_us\<close> for every active entry is preserved by every
  operation. After a missed deadline it is not preserved by \<open>set_timer\<close>: with timer 0
  of period 100 set at 0 and the counter at 150, \<open>set_timer(1, 30)\<close> subtracts 150 from
  the \<open>remain\<close> of entry 0, which wraps to \<open>2\<^sup>3\<^sup>2 - 50\<close>, above its period.
\<close>

theorem set_timer_breaks_remain_within_period:
  "table_ok missed_deadline \<and> remain_within_period missed_deadline \<and>
   tmr_val_reg missed_deadline = 150 \<and>
   timer_data missed_deadline ! 0 = \<lparr>wait_us = 100, remain = 100, times_fired = 0\<rparr> \<and>
   fst (set_timer 1 30 missed_deadline) = None \<and>
   timer_data (snd (set_timer 1 30 missed_deadline)) ! 0 =
     \<lparr>wait_us = 100, remain = 4294967246, times_fired = 0\<rparr> \<and>
   \<not> remain_within_period (snd (set_timer 1 30 missed_deadline))"
  by code_simp

text \<open>
  C4 as the code has it. The predicate holds initially and is preserved by
  \<open>remove_timer\<close>, by \<open>timer_interrupt\<close> and by a tick of the counter in every state, and
  by \<open>set_timer\<close> whenever no deadline was missed: the time elapsed since
  \<open>last_update_timer_value\<close> is at most the \<open>remain\<close> of every other active entry.
\<close>

theorem remain_within_period_preserved:
  assumes "table_ok s" and "remain_within_period s"
  shows "remain_within_period initial_state \<and>
         remain_within_period (timer_interrupt s) \<and>
         remain_within_period (snd (remove_timer removed_id s)) \<and>
         remain_within_period (hw_timer_tick s) \<and>
         ((\<forall>i<TMR_NUM. i \<noteq> unat timer_id \<and> wait_us (timer_data s ! i) \<noteq> 0 \<longrightarrow>
             tmr_val_reg s - last_update_timer_value s \<le> remain (timer_data s ! i)) \<longrightarrow>
          remain_within_period (snd (set_timer timer_id wait s)))"
proof -
  have "remain_within_period initial_state"
    by (simp add: remain_within_period_def initial_state_def list_all_iff)
  moreover have "remain_within_period (hw_timer_tick s)"
    using assms(2) by (simp add: remain_within_period_def hw_timer_tick_def list_all_iff)
  ultimately show ?thesis
    using assms remain_within_period_timer_interrupt remain_within_period_remove_timer
      remain_within_period_set_timer
    by blast
qed

theorem remain_within_period_preserved_witness:
  "table_ok scenario_d \<and> remain_within_period scenario_d \<and>
   tmr_val_reg scenario_d - last_update_timer_value scenario_d = 10 \<and>
   active_remains scenario_d = [100, 30] \<and>
   remain_within_period (timer_interrupt scenario_d) \<and>
   remain_within_period (snd (remove_timer 1 scenario_d)) \<and>
   remain_within_period (hw_timer_tick scenario_d) \<and>
   remain_within_period (snd (set_timer 2 50 scenario_d))"
proof -
  have h: "table_ok scenario_d" "remain_within_period scenario_d" by code_simp+
  have d: "tmr_val_reg scenario_d - last_update_timer_value scenario_d = 10"
    and a: "active_remains scenario_d = [100, 30]"
    by code_simp+
  have "list_all (\<lambda>t. wait_us t \<noteq> 0 \<longrightarrow>
          tmr_val_reg scenario_d - last_update_timer_value scenario_d \<le> remain t)
          (timer_data scenario_d)"
    by code_simp
  with h(1) have e: "\<forall>i<TMR_NUM. i \<noteq> unat (2 :: uint8) \<and> wait_us (timer_data scenario_d ! i) \<noteq> 0 \<longrightarrow>
      tmr_val_reg scenario_d - last_update_timer_value scenario_d
        \<le> remain (timer_data scenario_d ! i)"
    by (simp add: list_all_length table_ok_def)
  from remain_within_period_preserved [OF h, of 1 2 50] h e d a show ?thesis
    by simp
qed

section \<open>The count of firings over runs\<close>

lemma table_ok_exec: "table_ok (exec c s) = table_ok s"
  by (cases c)
     (simp_all add: table_ok_set_timer table_ok_remove_timer table_ok_timer_interrupt,
      simp add: table_ok_def hw_timer_tick_def)

lemma run_Cons: "run (c # cs) s = run cs (exec c s)"
  by (simp add: run_def)

lemma run_snoc: "run (cs @ [c]) s = exec c (run cs s)"
  by (simp add: run_def)

lemma times_fired_exec:
  assumes "table_ok s" and "i < TMR_NUM" and "\<not> sets_timer i c"
    and "wait_us (timer_data s ! i) \<noteq> 0"
    and "wait_us (timer_data (exec c s) ! i) \<noteq> 0"
  shows "times_fired (timer_data (exec c s) ! i) = times_fired (timer_data s ! i) \<or>
         c = Timer_interrupt \<and>
         times_fired (timer_data (exec c s) ! i) = times_fired (timer_data s ! i) + 1"
proof (cases c)
  case (Set_timer timer_id wait)
  show ?thesis
  proof (cases "unat timer_id < TMR_NUM")
    case True
    with assms Set_timer show ?thesis
      by (simp add: set_timer_entry Let_def)
  next
    case False
    with Set_timer show ?thesis
      by (simp add: set_timer_def)
  qed
next
  case (Remove_timer timer_id)
  with assms show ?thesis
    by (auto simp: remove_timer_def table_ok_def nth_list_update split: if_splits)
next
  case Timer_interrupt
  with assms show ?thesis
    by (simp add: timer_interrupt_entry Let_def)
next
  case Hw_timer_tick
  then show ?thesis
    by (simp add: hw_timer_tick_def)
qed

lemma unat_times_fired_exec:
  assumes "table_ok s" and "i < TMR_NUM" and "\<not> sets_timer i c"
    and "wait_us (timer_data s ! i) \<noteq> 0"
    and "wait_us (timer_data (exec c s) ! i) \<noteq> 0"
    and "unat (times_fired (timer_data s ! i)) + count_list [c] Timer_interrupt < 2 ^ 32"
  shows "unat (times_fired (timer_data s ! i))
           \<le> unat (times_fired (timer_data (exec c s) ! i)) \<and>
         unat (times_fired (timer_data (exec c s) ! i))
           \<le> unat (times_fired (timer_data s ! i)) + count_list [c] Timer_interrupt"
  using times_fired_exec [OF assms(1-5)]
proof
  assume "times_fired (timer_data (exec c s) ! i) = times_fired (timer_data s ! i)"
  then show ?thesis by simp
next
  assume fired: "c = Timer_interrupt \<and>
    times_fired (timer_data (exec c s) ! i) = times_fired (timer_data s ! i) + 1"
  then have c: "c = Timer_interrupt"
    and tf: "times_fired (timer_data (exec c s) ! i) = times_fired (timer_data s ! i) + 1"
    by blast+
  from c assms(6) have "unat (times_fired (timer_data s ! i)) + 1 < 2 ^ 32" by simp
  then have "unat (times_fired (timer_data s ! i) + 1) = unat (times_fired (timer_data s ! i)) + 1"
    by (simp add: unat_word_ariths)
  then have "unat (times_fired (timer_data (exec c s) ! i)) =
               unat (times_fired (timer_data s ! i)) + 1"
    by (simp only: tf)
  moreover have "count_list [c] Timer_interrupt = 1"
    using c by simp
  ultimately show ?thesis by linarith
qed

lemma unat_times_fired_run:
  assumes "i < TMR_NUM"
  shows "table_ok s \<Longrightarrow> \<forall>c\<in>set cs. \<not> sets_timer i c \<Longrightarrow> stays_active i cs s \<Longrightarrow>
         unat (times_fired (timer_data s ! i)) + count_list cs Timer_interrupt < 2 ^ 32 \<Longrightarrow>
         unat (times_fired (timer_data s ! i))
           \<le> unat (times_fired (timer_data (run cs s) ! i)) \<and>
         unat (times_fired (timer_data (run cs s) ! i))
           \<le> unat (times_fired (timer_data s ! i)) + count_list cs Timer_interrupt"
proof (induction cs arbitrary: s)
  case Nil
  then show ?case by (simp add: run_def)
next
  case (Cons c cs)
  let ?s1 = "exec c s"
  from Cons.prems(3) have act: "wait_us (timer_data s ! i) \<noteq> 0"
    and rest: "stays_active i cs ?s1"
    by simp_all
  from rest have act1: "wait_us (timer_data ?s1 ! i) \<noteq> 0"
    by (cases cs) simp_all
  from Cons.prems(2) have c: "\<not> sets_timer i c" and cs: "\<forall>c\<in>set cs. \<not> sets_timer i c"
    by simp_all
  from Cons.prems(4)
  have b1: "unat (times_fired (timer_data s ! i)) + count_list [c] Timer_interrupt < 2 ^ 32"
    by (simp split: if_splits)
  note step = unat_times_fired_exec [OF Cons.prems(1) assms c act act1 b1]
  from step Cons.prems(4)
  have b2: "unat (times_fired (timer_data ?s1 ! i)) + count_list cs Timer_interrupt < 2 ^ 32"
    by (simp split: if_splits)
  have ok1: "table_ok ?s1"
    using Cons.prems(1) by (simp add: table_ok_exec)
  from Cons.IH [OF ok1 cs rest b2] step show ?case
    by (simp add: run_Cons split: if_splits)
qed

lemma upt_TMR_NUM: "[0..<TMR_NUM] = [0, 1, 2, 3, 4, 5, 6, 7, 8, 9]"
  by (simp add: TMR_NUM_def upt_rec)

lemma replicate_9: "replicate 9 x = [x, x, x, x, x, x, x, x, x]"
  by (simp add: numeral_eq_Suc)

lemma lone_timer_table:
  "timer_data lone_timer =
     \<lparr>wait_us = 1, remain = 1, times_fired = 0\<rparr> #
     replicate 9 \<lparr>wait_us = 0, remain = 0, times_fired = 0\<rparr>"
  by code_simp

lemma lone_timer_interrupt:
  assumes "timer_data s =
     \<lparr>wait_us = 1, remain = 1, times_fired = k\<rparr> #
     replicate 9 \<lparr>wait_us = 0, remain = 0, times_fired = 0\<rparr>"
  shows "timer_data (timer_interrupt s) =
     \<lparr>wait_us = 1, remain = 1, times_fired = k + 1\<rparr> #
     replicate 9 \<lparr>wait_us = 0, remain = 0, times_fired = 0\<rparr>"
proof -
  have m: "find_minimal_remain s = 1"
    by (simp add: find_minimal_remain_def assms upt_TMR_NUM find_minimal_remain_step_def
          replicate_9)
  show ?thesis
    unfolding timer_data_timer_interrupt m assms upt_TMR_NUM replicate_9
    by (simp add: timer_interrupt_step_def)
qed

lemma run_append: "run (cs @ ds) s = run ds (run cs s)"
  by (simp add: run_def)

lemma rounds_Suc: "rounds (Suc n) = rounds n @ [Hw_timer_tick, Timer_interrupt]"
proof -
  have "replicate (Suc n) [Hw_timer_tick, Timer_interrupt] =
          replicate n [Hw_timer_tick, Timer_interrupt] @ [[Hw_timer_tick, Timer_interrupt]]"
    by (simp add: replicate_append_same)
  then show ?thesis
    by (simp only: rounds_def concat_append concat.simps append_Nil2)
qed

lemma lone_timer_served:
  "timer_data (run (rounds n) lone_timer) =
     \<lparr>wait_us = 1, remain = 1, times_fired = of_nat n\<rparr> #
     replicate 9 \<lparr>wait_us = 0, remain = 0, times_fired = 0\<rparr>"
proof (induction n)
  case 0
  then show ?case by (simp add: run_def rounds_def lone_timer_table)
next
  case (Suc n)
  let ?s = "hw_timer_tick (run (rounds n) lone_timer)"
  have "timer_data ?s = timer_data (run (rounds n) lone_timer)"
    by (simp add: hw_timer_tick_def)
  with Suc have "timer_data ?s =
     \<lparr>wait_us = 1, remain = 1, times_fired = of_nat n\<rparr> #
     replicate 9 \<lparr>wait_us = 0, remain = 0, times_fired = 0\<rparr>"
    by simp
  then have "timer_data (timer_interrupt ?s) =
     \<lparr>wait_us = 1, remain = 1, times_fired = of_nat n + 1\<rparr> #
     replicate 9 \<lparr>wait_us = 0, remain = 0, times_fired = 0\<rparr>"
    by (rule lone_timer_interrupt)
  moreover have "run (rounds (Suc n)) lone_timer = timer_interrupt ?s"
    by (simp add: rounds_Suc run_append run_def)
  ultimately show ?case
    by (simp add: add.commute)
qed

lemma fired_max_table:
  "timer_data fired_max =
     \<lparr>wait_us = 1, remain = 1, times_fired = 0xffffffff\<rparr> #
     replicate 9 \<lparr>wait_us = 0, remain = 0, times_fired = 0\<rparr>"
  by (simp add: fired_max_def lone_timer_served)

lemma uint32_not_max_bound:
  assumes "(w :: uint32) \<noteq> 0xffffffff"
  shows "unat w + 1 < 2 ^ 32"
proof -
  have "unat w \<noteq> unat (0xffffffff :: uint32)"
    using assms by (simp only: word_unat_eq_iff not_False_eq_True)
  moreover have "unat w < 2 ^ 32"
    using unsigned_less [of w] by simp
  ultimately show ?thesis by simp
qed

text \<open>
  C8. The claim: while an entry stays active its \<open>times_fired\<close> never decreases and only
  \<open>set_timer\<close> on that id resets it to 0. The counter is a \<open>uint32\<close> and
  \<open>times_fired++\<close> wraps: when the lone timer of period 1 has fired \<open>2\<^sup>3\<^sup>2 - 1\<close> times,
  once per tick of the counter, the next \<open>timer_interrupt\<close> takes \<open>times_fired\<close> of the still active entry 0 from
  \<open>0xffffffff\<close> to 0.
\<close>

theorem times_fired_wraps_to_zero:
  "wait_us (timer_data fired_max ! 0) \<noteq> 0 \<and>
   times_fired (timer_data fired_max ! 0) = 0xffffffff \<and>
   \<not> sets_timer 0 Timer_interrupt \<and>
   wait_us (timer_data (exec Timer_interrupt fired_max) ! 0) \<noteq> 0 \<and>
   times_fired (timer_data (exec Timer_interrupt fired_max) ! 0) = 0 \<and>
   times_fired (timer_data (exec Timer_interrupt fired_max) ! 0)
     < times_fired (timer_data fired_max ! 0)"
  using lone_timer_interrupt [OF fired_max_table]
  by (simp add: fired_max_table)

text \<open>
  C8 as the code has it. Take an entry \<open>i\<close> and any command other than \<open>set_timer\<close> on
  \<open>i\<close> that finds and leaves the entry active. The command leaves \<open>times_fired\<close> of
  \<open>i\<close> as it was, or it is \<open>timer_interrupt\<close> and adds one modulo \<open>2\<^sup>3\<^sup>2\<close>; so
  \<open>times_fired\<close> does not decrease, and is not reset to 0, unless it wraps from
  \<open>0xffffffff\<close>. Over a run of such commands in which the entry stays active,
  \<open>times_fired\<close> does not decrease as long as its initial value plus the number of
  interrupts served stays below \<open>2\<^sup>3\<^sup>2\<close>.
\<close>

theorem times_fired_monotone_until_wrap:
  assumes "table_ok s" and "i < TMR_NUM"
  shows "(\<not> sets_timer i c \<and> wait_us (timer_data s ! i) \<noteq> 0 \<and>
          wait_us (timer_data (exec c s) ! i) \<noteq> 0 \<longrightarrow>
            (times_fired (timer_data (exec c s) ! i) = times_fired (timer_data s ! i) \<or>
             c = Timer_interrupt \<and>
             times_fired (timer_data (exec c s) ! i) = times_fired (timer_data s ! i) + 1) \<and>
            (times_fired (timer_data s ! i) \<noteq> 0xffffffff \<longrightarrow>
               times_fired (timer_data s ! i) \<le> times_fired (timer_data (exec c s) ! i))) \<and>
         ((\<forall>c\<in>set cs. \<not> sets_timer i c) \<and> stays_active i cs s \<and>
          unat (times_fired (timer_data s ! i)) + count_list cs Timer_interrupt < 2 ^ 32 \<longrightarrow>
            times_fired (timer_data s ! i) \<le> times_fired (timer_data (run cs s) ! i))"
proof (intro conjI impI)
  assume h: "\<not> sets_timer i c \<and> wait_us (timer_data s ! i) \<noteq> 0 \<and>
             wait_us (timer_data (exec c s) ! i) \<noteq> 0"
  then show "times_fired (timer_data (exec c s) ! i) = times_fired (timer_data s ! i) \<or>
             c = Timer_interrupt \<and>
             times_fired (timer_data (exec c s) ! i) = times_fired (timer_data s ! i) + 1"
    using times_fired_exec [OF assms, of c] by blast
  assume "times_fired (timer_data s ! i) \<noteq> 0xffffffff"
  then have "unat (times_fired (timer_data s ! i)) + 1 < 2 ^ 32"
    by (rule uint32_not_max_bound)
  then have "unat (times_fired (timer_data s ! i)) + count_list [c] Timer_interrupt < 2 ^ 32"
    by simp
  with h unat_times_fired_exec [OF assms, of c]
  show "times_fired (timer_data s ! i) \<le> times_fired (timer_data (exec c s) ! i)"
    by (simp add: word_le_nat_alt)
next
  assume "(\<forall>c\<in>set cs. \<not> sets_timer i c) \<and> stays_active i cs s \<and>
          unat (times_fired (timer_data s ! i)) + count_list cs Timer_interrupt < 2 ^ 32"
  with unat_times_fired_run [OF assms(2,1), of cs]
  show "times_fired (timer_data s ! i) \<le> times_fired (timer_data (run cs s) ! i)"
    by (simp add: word_le_nat_alt)
qed

theorem times_fired_monotone_until_wrap_witness:
  "table_ok scenario_b \<and> (1 :: nat) < TMR_NUM \<and>
   \<not> sets_timer 1 Timer_interrupt \<and>
   wait_us (timer_data scenario_b ! 1) \<noteq> 0 \<and>
   wait_us (timer_data (exec Timer_interrupt scenario_b) ! 1) \<noteq> 0 \<and>
   times_fired (timer_data scenario_b ! 1) \<noteq> 0xffffffff \<and>
   list_all (\<lambda>c. \<not> sets_timer 1 c)
     [Timer_interrupt, Remove_timer 0, Set_timer 2 7, Hw_timer_tick, Timer_interrupt] \<and>
   stays_active 1 [Timer_interrupt, Remove_timer 0, Set_timer 2 7, Hw_timer_tick, Timer_interrupt]
     scenario_b \<and>
   unat (times_fired (timer_data scenario_b ! 1)) +
     count_list [Timer_interrupt, Remove_timer 0, Set_timer 2 7, Hw_timer_tick, Timer_interrupt]
       Timer_interrupt < 2 ^ 32 \<and>
   times_fired (timer_data scenario_b ! 1)
     \<le> times_fired (timer_data (exec Timer_interrupt scenario_b) ! 1) \<and>
   times_fired (timer_data scenario_b ! 1)
     \<le> times_fired (timer_data
          (run [Timer_interrupt, Remove_timer 0, Set_timer 2 7, Hw_timer_tick, Timer_interrupt]
             scenario_b) ! 1) \<and>
   times_fired (timer_data scenario_b ! 1) = 0 \<and>
   times_fired (timer_data
     (run [Timer_interrupt, Remove_timer 0, Set_timer 2 7, Hw_timer_tick, Timer_interrupt]
        scenario_b) ! 1) = 1"
proof -
  let ?cs = "[Timer_interrupt, Remove_timer 0, Set_timer 2 7, Hw_timer_tick, Timer_interrupt]"
  have h: "table_ok scenario_b" "(1 :: nat) < TMR_NUM" by code_simp+
  have a: "\<not> sets_timer 1 Timer_interrupt"
    "wait_us (timer_data scenario_b ! 1) \<noteq> 0"
    "wait_us (timer_data (exec Timer_interrupt scenario_b) ! 1) \<noteq> 0"
    "times_fired (timer_data scenario_b ! 1) \<noteq> 0xffffffff"
    by code_simp+
  have l: "list_all (\<lambda>c. \<not> sets_timer 1 c) ?cs" by simp
  then have b: "\<forall>c\<in>set ?cs. \<not> sets_timer 1 c" by (simp only: list_all_iff)
  have c: "stays_active 1 ?cs scenario_b" by code_simp
  have e: "times_fired (timer_data scenario_b ! 1) = 0"
    "times_fired (timer_data (run ?cs scenario_b) ! 1) = 1"
    by code_simp+
  have d: "unat (times_fired (timer_data scenario_b ! 1)) + count_list ?cs Timer_interrupt
             < 2 ^ 32"
    using e by simp
  from times_fired_monotone_until_wrap [OF h, of Timer_interrupt ?cs] a b c d
  have "times_fired (timer_data scenario_b ! 1)
          \<le> times_fired (timer_data (exec Timer_interrupt scenario_b) ! 1)"
    and "times_fired (timer_data scenario_b ! 1)
          \<le> times_fired (timer_data (run ?cs scenario_b) ! 1)"
    by blast+
  with h a l c d e show ?thesis by simp
qed

section \<open>The scan and the interrupt routine of \<open>SW_Timer_theoretical.c\<close>\<close>

text \<open>
  The variant's \<open>find_minimal_remain\<close> and \<open>timer_interrupt\<close> compute what the
  executable program computes once \<open>times_fired\<close> is forgotten, so the properties of
  the scan and of the interrupt routine carry over.
\<close>

lemma th_find_minimal_remain_step_forget:
  "i < length td \<Longrightarrow>
   th_find_minimal_remain_step
       (map (\<lambda>t. \<lparr>th_wait_us = wait_us t, th_remain = remain t\<rparr>) td) i m =
     find_minimal_remain_step td i m"
  by (simp add: th_find_minimal_remain_step_def find_minimal_remain_step_def)

lemma fold_th_find_minimal_remain_step_forget:
  "n \<le> length td \<Longrightarrow>
   fold (th_find_minimal_remain_step
       (map (\<lambda>t. \<lparr>th_wait_us = wait_us t, th_remain = remain t\<rparr>) td)) [0..<n] m =
     fold (find_minimal_remain_step td) [0..<n] m"
  by (induction n) (simp_all add: th_find_minimal_remain_step_forget)

lemma th_find_minimal_remain_forget:
  "table_ok s \<Longrightarrow> th_find_minimal_remain (forget_times_fired s) = find_minimal_remain s"
  by (simp add: th_find_minimal_remain_def find_minimal_remain_def forget_times_fired_def
        table_ok_def fold_th_find_minimal_remain_step_forget)

lemma th_timer_interrupt_step_forget:
  "i < length td \<Longrightarrow>
   th_timer_interrupt_step m i
       (map (\<lambda>t. \<lparr>th_wait_us = wait_us t, th_remain = remain t\<rparr>) td) =
     map (\<lambda>t. \<lparr>th_wait_us = wait_us t, th_remain = remain t\<rparr>) (timer_interrupt_step m i td)"
  by (simp add: th_timer_interrupt_step_def timer_interrupt_step_def Let_def map_update)

lemma fold_th_timer_interrupt_step_forget:
  "n \<le> length td \<Longrightarrow>
   fold (th_timer_interrupt_step m) [0..<n]
       (map (\<lambda>t. \<lparr>th_wait_us = wait_us t, th_remain = remain t\<rparr>) td) =
     map (\<lambda>t. \<lparr>th_wait_us = wait_us t, th_remain = remain t\<rparr>)
       (fold (timer_interrupt_step m) [0..<n] td)"
proof (induction n)
  case 0
  then show ?case by simp
next
  case (Suc n)
  then have "n < length (fold (timer_interrupt_step m) [0..<n] td)"
    by (simp add: fold_timer_interrupt_step_length)
  with Suc show ?case
    by (simp add: th_timer_interrupt_step_forget)
qed

lemma table_ok_forget: "th_table_ok (forget_times_fired s) = table_ok s"
  by (simp add: th_table_ok_def table_ok_def forget_times_fired_def)

lemma th_timer_interrupt_forget:
  assumes "table_ok s"
  shows "th_timer_interrupt (forget_times_fired s) = forget_times_fired (timer_interrupt s)"
  using assms
  by (simp add: th_timer_interrupt_def timer_interrupt_def forget_times_fired_def Let_def
        th_find_minimal_remain_def find_minimal_remain_def table_ok_def
        fold_th_find_minimal_remain_step_forget fold_th_timer_interrupt_step_forget
        fold_timer_interrupt_step_length)

lemma forget_with_times_fired: "forget_times_fired (with_times_fired h) = h"
proof -
  have "map (\<lambda>t. \<lparr>th_wait_us = th_wait_us t, th_remain = th_remain t\<rparr>) (th_timer_data h) =
          th_timer_data h"
    by (rule map_idI) simp
  then show ?thesis
    by (simp add: forget_times_fired_def with_times_fired_def comp_def)
qed

lemma table_ok_with_times_fired: "table_ok (with_times_fired h) = th_table_ok h"
  by (simp add: table_ok_def th_table_ok_def with_times_fired_def)

lemma active_remains_with_times_fired:
  "active_remains (with_times_fired h) = th_active_remains h"
  by (simp add: active_remains_def th_active_remains_def with_times_fired_def
        filter_map comp_def)

lemma th_find_minimal_remain_with:
  "th_table_ok h \<Longrightarrow> th_find_minimal_remain h = find_minimal_remain (with_times_fired h)"
  using th_find_minimal_remain_forget [of "with_times_fired h"]
  by (simp add: forget_with_times_fired table_ok_with_times_fired)

lemma th_timer_interrupt_with:
  "th_table_ok h \<Longrightarrow>
   th_timer_interrupt h = forget_times_fired (timer_interrupt (with_times_fired h))"
  using th_timer_interrupt_forget [of "with_times_fired h"]
  by (simp add: forget_with_times_fired table_ok_with_times_fired)

text \<open>
  The variant's scan returns the smallest \<open>remain\<close> among the active entries, and
  \<open>0xffffffff\<close> when there is none.
\<close>

lemma th_scan_smallest:
  "th_table_ok h \<Longrightarrow>
   th_find_minimal_remain h =
     (if th_active_remains h = [] then 0xffffffff else Min (set (th_active_remains h)))"
  using find_minimal_remain_cases [of "with_times_fired h"]
  by (simp add: th_find_minimal_remain_with table_ok_with_times_fired
        active_remains_with_times_fired)

text \<open>
  The variant's \<open>timer_interrupt\<close> leaves inactive entries alone, reloads the active
  entries whose \<open>remain\<close> equals the minimum and subtracts the minimum from the others.
\<close>

lemma th_timer_interrupt_advances_and_reloads:
  assumes "th_table_ok h" and "i < TMR_NUM"
  shows "th_timer_data (th_timer_interrupt h) ! i =
     (let t = th_timer_data h ! i; m = th_find_minimal_remain h
      in if th_wait_us t = 0 then t
         else if th_remain t = m then t\<lparr>th_remain := th_wait_us t\<rparr>
         else t\<lparr>th_remain := th_remain t - m\<rparr>)"
proof -
  let ?s = "with_times_fired h"
  have ok: "table_ok ?s"
    using assms(1) by (simp add: table_ok_with_times_fired)
  have "table_ok (timer_interrupt ?s)"
    using ok by (simp add: table_ok_timer_interrupt)
  then have len: "i < length (timer_data (timer_interrupt ?s))" "i < length (th_timer_data h)"
    using assms by (simp_all add: table_ok_def th_table_ok_def)
  have t: "timer_data ?s ! i =
      \<lparr>wait_us = th_wait_us (th_timer_data h ! i), remain = th_remain (th_timer_data h ! i),
       times_fired = 0\<rparr>"
    using len(2) by (simp add: with_times_fired_def)
  have "th_timer_data (th_timer_interrupt h) ! i =
      \<lparr>th_wait_us = wait_us (timer_data (timer_interrupt ?s) ! i),
       th_remain = remain (timer_data (timer_interrupt ?s) ! i)\<rparr>"
    using assms(1) len(1) by (simp add: th_timer_interrupt_with forget_times_fired_def)
  then show ?thesis
    using assms(1)
    by (simp add: timer_interrupt_entry [OF ok assms(2)] t Let_def
          th_find_minimal_remain_with)
qed

lemma th_active_remains_forget:
  "th_active_remains (forget_times_fired s) = active_remains s"
  by (simp add: active_remains_def th_active_remains_def forget_times_fired_def
        filter_map comp_def)

lemma timer_interrupt_active_remain_nonzero:
  assumes "table_ok s"
  shows "0 \<notin> set (active_remains (timer_interrupt s))"
proof
  let ?s' = "timer_interrupt s"
  assume "0 \<in> set (active_remains ?s')"
  then obtain t where t: "t \<in> set (timer_data ?s')" "wait_us t \<noteq> 0" "remain t = 0"
    by (auto simp: active_remains_def)
  from t(1) obtain i where i: "i < length (timer_data ?s')" "timer_data ?s' ! i = t"
    by (auto simp: in_set_conv_nth)
  have "table_ok ?s'"
    using assms by (simp add: table_ok_timer_interrupt)
  with i have "i < TMR_NUM" by (simp add: table_ok_def)
  with assms i(2) t(2,3) show False
    by (auto simp: timer_interrupt_entry Let_def split: if_splits)
qed

text \<open>
  After the variant's \<open>timer_interrupt\<close> no active entry has \<open>remain = 0\<close>, and the
  offset added to \<open>last_update_timer_value\<close> for the compare register is nonzero
  while an entry is active.
\<close>

lemma th_interrupt_leaves_nonzero:
  assumes "th_table_ok h"
  shows "0 \<notin> set (th_active_remains (th_timer_interrupt h)) \<and>
         th_tmr_cmp_reg (th_timer_interrupt h) =
           th_last_update_timer_value (th_timer_interrupt h) +
           th_find_minimal_remain (th_timer_interrupt h) \<and>
         (th_active_remains (th_timer_interrupt h) \<noteq> [] \<longrightarrow>
            th_find_minimal_remain (th_timer_interrupt h) \<noteq> 0)"
proof -
  let ?s = "with_times_fired h"
  have ok: "table_ok ?s"
    using assms by (simp add: table_ok_with_times_fired)
  then have ok': "table_ok (timer_interrupt ?s)"
    by (simp add: table_ok_timer_interrupt)
  have h': "th_timer_interrupt h = forget_times_fired (timer_interrupt ?s)"
    using assms by (rule th_timer_interrupt_with)
  have nz: "0 \<notin> set (active_remains (timer_interrupt ?s))"
    using ok by (rule timer_interrupt_active_remain_nonzero)
  have "active_remains (timer_interrupt ?s) \<noteq> [] \<longrightarrow>
          find_minimal_remain (timer_interrupt ?s) \<noteq> 0"
    using ok' nz by (simp add: find_minimal_remain_nonzero)
  moreover have "th_tmr_cmp_reg (th_timer_interrupt h) =
      th_last_update_timer_value (th_timer_interrupt h) +
      th_find_minimal_remain (th_timer_interrupt h)"
    by (simp add: th_timer_interrupt_def Let_def th_find_minimal_remain_def)
  ultimately show ?thesis
    using nz ok' by (simp add: h' th_active_remains_forget th_find_minimal_remain_forget)
qed

end
